theory Spec2Isabelle
  imports Complex_Main "HOL-Library.Sublist" "HOL-Library.AList"
begin

section \<open>Exceptions as values\<close>

text \<open>
  Every tool of \<^verbatim>\<open>mcp_server.py\<close> signals failure by raising. The exceptions the
  tools raise themselves are \<^verbatim>\<open>ValueError\<close>s with a formatted message; the model keeps
  one constructor per message template, carrying the interpolated argument. Exceptions
  raised by the Python runtime or by a library inside a tool are \<open>exn\<close> values: outside
  a \<^verbatim>\<open>try\<close> block they reach the caller unchanged (\<open>Propagated\<close>), inside the
  \<^verbatim>\<open>try\<close> block of \<^verbatim>\<open>get_weather_alerts\<close> they are wrapped.
\<close>

datatype exn =
    AttributeError
  | KeyError
  | TypeError
  | IndexError
  | RequestException
  | HTTPError nat
  | JSONDecodeError
  | UndefinedColumn

datatype error =
    DocNotFound string
  | TodoNotFound string
  | WeatherAlertsError string exn
  | Propagated exn

section \<open>The document store\<close>

text \<open>
  \<^verbatim>\<open>docs\<close> is a module-level Python \<^verbatim>\<open>dict\<close> from document id to content. A Python
  dictionary keeps its keys in insertion order and \<^verbatim>\<open>list_docs\<close> exposes that order,
  so the store is an association list: \<open>map_of\<close> is the lookup, \<open>AList.update\<close> is
  the assignment \<^verbatim>\<open>docs[k] = v\<close> (the value of an existing key is replaced where it
  stands, a new key goes to the end).
\<close>

type_synonym docs = "(string \<times> string) list"

definition docs_init :: docs where
  "docs_init =
    [(''deposition.md'', ''This deposition covers the testimony of Angela Smith, P.E.''),
     (''report.pdf'', ''The report details the state of a 20m condenser tower.''),
     (''financials.docx'', ''These financials outline the project's budget and expenditures.''),
     (''outlook.pdf'', ''This document presents the projected future performance of the system.''),
     (''plan.md'', ''The plan outlines the steps for the project's implementation.''),
     (''spec.txt'', ''These specifications define the technical requirements for the equipment.'')]"

text \<open>\<^verbatim>\<open>k in d\<close> and \<^verbatim>\<open>d[k]\<close>; the subscript raises \<^verbatim>\<open>KeyError\<close> on a missing key.\<close>

definition dict_contains :: "('k \<times> 'v) list \<Rightarrow> 'k \<Rightarrow> bool" where
  "dict_contains d k = (k \<in> set (map fst d))"

definition dict_getitem :: "('k \<times> 'v) list \<Rightarrow> 'k \<Rightarrow> error + 'v" where
  "dict_getitem d k = (case map_of d k of None \<Rightarrow> Inl (Propagated KeyError) | Some v \<Rightarrow> Inr v)"

text \<open>
  \<^verbatim>\<open>s.replace(old, new)\<close> of Python's \<^verbatim>\<open>str\<close>, over any alphabet. With an empty
  \<^verbatim>\<open>old\<close> the result interleaves \<^verbatim>\<open>new\<close> with the characters of \<^verbatim>\<open>s\<close>, starting
  and ending with \<^verbatim>\<open>new\<close>. Otherwise the string is scanned from the left: where
  \<^verbatim>\<open>old\<close> starts at the current position it is replaced and the scan goes on behind
  it, so occurrences that overlap an occurrence already replaced are not seen.
\<close>

fun str_replace :: "'a list \<Rightarrow> 'a list \<Rightarrow> 'a list \<Rightarrow> 'a list" where
  "str_replace [] new [] = new"
| "str_replace [] new (c # cs) = new @ c # str_replace [] new cs"
| "str_replace (x # xs) new [] = []"
| "str_replace (x # xs) new (c # cs) =
     (if take (length (x # xs)) (c # cs) = x # xs
      then new @ str_replace (x # xs) new (drop (length (x # xs)) (c # cs))
      else c # str_replace (x # xs) new cs)"

text \<open>
  The calling context of a tool: the messages it has been sent through
  \<^verbatim>\<open>ctx.info\<close>. The parameter \<^verbatim>\<open>ctx\<close> of \<^verbatim>\<open>read_document\<close> defaults to
  \<^verbatim>\<open>None\<close>, on which \<^verbatim>\<open>ctx.info\<close> is an \<^verbatim>\<open>AttributeError\<close>; the hosting
  framework passes its own context for every tool call.
\<close>

type_synonym tool_context = "string list"

definition ctx_info :: "tool_context \<Rightarrow> string \<Rightarrow> tool_context" where
  "ctx_info ctx msg = ctx @ [msg]"

definition read_document :: "docs \<Rightarrow> string \<Rightarrow> tool_context option \<Rightarrow> error + (string \<times> tool_context)" where
  "read_document docs doc_id ctx =
     (if \<not> dict_contains docs doc_id then Inl (DocNotFound doc_id)
      else case ctx of
        None \<Rightarrow> Inl (Propagated AttributeError)
      | Some c \<Rightarrow>
          (case dict_getitem docs doc_id of
             Inl e \<Rightarrow> Inl e
           | Inr content \<Rightarrow> Inr (content, ctx_info c (''Reading content from '' @ doc_id))))"

definition edit_document :: "docs \<Rightarrow> string \<Rightarrow> string \<Rightarrow> string \<Rightarrow> error + docs" where
  "edit_document docs doc_id old_str new_str =
     (if \<not> dict_contains docs doc_id then Inl (DocNotFound doc_id)
      else case dict_getitem docs doc_id of
        Inl e \<Rightarrow> Inl e
      | Inr content \<Rightarrow> Inr (AList.update doc_id (str_replace old_str new_str content) docs))"

definition list_docs :: "docs \<Rightarrow> string list" where
  "list_docs docs = map fst docs"

definition fetch_doc :: "docs \<Rightarrow> string \<Rightarrow> error + string" where
  "fetch_doc docs doc_id =
     (if \<not> dict_contains docs doc_id then Inl (DocNotFound doc_id)
      else dict_getitem docs doc_id)"

text \<open>
  A sequence of \<^verbatim>\<open>edit_document\<close> calls against the store, each given as
  \<open>(doc_id, old_str, new_str)\<close>. A call that raises leaves the store as it was.
\<close>

fun edit_calls :: "docs \<Rightarrow> (string \<times> string \<times> string) list \<Rightarrow> docs" where
  "edit_calls docs [] = docs"
| "edit_calls docs ((doc_id, old_str, new_str) # calls) =
     edit_calls
       (case edit_document docs doc_id old_str new_str of Inl e \<Rightarrow> docs | Inr docs' \<Rightarrow> docs')
       calls"

section \<open>The todos table\<close>

text \<open>
  The todo tools talk to a PostgreSQL table \<^verbatim>\<open>todos\<close> through psycopg2. Its
  declaration is not part of the source, so the table is a parameter of the model: a
  list of columns, each with a name and the default the database fills in when an
  \<^verbatim>\<open>INSERT\<close> does not name the column, and the rows, one value per column.
  \<open>sql_value\<close> are the values as psycopg2 hands them to Python (\<^verbatim>\<open>None\<close>, int, str,
  bool, datetime).
\<close>

datatype sql_value =
    Null
  | IntVal int
  | TextVal string
  | BoolVal bool
  | TimestampVal int

datatype col_default =
    NoDefault
  | ConstDefault sql_value
  | SerialDefault
  | NowDefault

record column =
  col_name :: string
  col_default :: col_default

record database =
  columns :: "column list"
  rows :: "sql_value list list"
  next_serial :: int
  clock :: int

text \<open>Every row of a table has one value for each declared column.\<close>

definition table_wf :: "database \<Rightarrow> bool" where
  "table_wf db = (\<forall>r \<in> set (rows db). length r = length (columns db))"

fun column_index :: "column list \<Rightarrow> string \<Rightarrow> nat option" where
  "column_index [] n = None"
| "column_index (c # cs) n =
     (if col_name c = n then Some 0 else map_option Suc (column_index cs n))"

text \<open>
  What the source assumes of the table: \<^verbatim>\<open>read_todos\<close> reads the positions 0 to 4 of
  each row and calls them id, title, description, is_completed and created_at, while
  the statements of \<^verbatim>\<open>add_todo\<close>, \<^verbatim>\<open>complete_todo\<close> and \<^verbatim>\<open>delete_todo\<close> name the
  columns \<^verbatim>\<open>title\<close>, \<^verbatim>\<open>description\<close> and \<^verbatim>\<open>completed\<close>. \<open>todos_columns\<close> is
  a table of at least five columns, with distinct names as in any SQL table, whose
  second and third columns are the ones named \<^verbatim>\<open>title\<close> and \<^verbatim>\<open>description\<close>.
  \<open>completed_is_fourth\<close> says that the column the \<^verbatim>\<open>UPDATE\<close> names
  \<^verbatim>\<open>completed\<close>, if the table has it, is the fourth one, which \<^verbatim>\<open>read_todos\<close>
  returns as is_completed.
\<close>

definition todos_columns :: "column list \<Rightarrow> bool" where
  "todos_columns cs =
     (5 \<le> length cs
      \<and> distinct (map col_name cs)
      \<and> column_index cs ''title'' = Some 1
      \<and> column_index cs ''description'' = Some 2)"

definition completed_is_fourth :: "column list \<Rightarrow> bool" where
  "completed_is_fourth cs =
     (column_index cs ''completed'' = None \<or> column_index cs ''completed'' = Some 3)"


text \<open>
  The four statements the tools execute. A statement that names a column the table
  does not have fails and changes nothing; otherwise it returns the new state of the
  table and the cursor's \<^verbatim>\<open>rowcount\<close>. Each tool commits right after its statement, so
  the state a statement returns is the committed one. In SQL a \<^verbatim>\<open>NULL\<close> cell is
  equal to no parameter; the parameters below are never \<open>Null\<close>.
\<close>

definition sql_select_all :: "database \<Rightarrow> sql_value list list" where
  "sql_select_all db = rows db"



definition sql_update ::
  "database \<Rightarrow> string \<Rightarrow> sql_value \<Rightarrow> string \<Rightarrow> sql_value \<Rightarrow> error + (database \<times> nat)" where
  "sql_update db set_col v where_col x =
     (case column_index (columns db) where_col of
        None \<Rightarrow> Inl (Propagated UndefinedColumn)
      | Some j \<Rightarrow>
          (case column_index (columns db) set_col of
             None \<Rightarrow> Inl (Propagated UndefinedColumn)
           | Some i \<Rightarrow>
               Inr (db\<lparr>rows := map (\<lambda>r. if r ! j = x then r[i := v] else r) (rows db)\<rparr>,
                    length (filter (\<lambda>r. r ! j = x) (rows db)))))"

definition sql_delete :: "database \<Rightarrow> string \<Rightarrow> sql_value \<Rightarrow> error + (database \<times> nat)" where
  "sql_delete db where_col x =
     (case column_index (columns db) where_col of
        None \<Rightarrow> Inl (Propagated UndefinedColumn)
      | Some j \<Rightarrow>
          Inr (db\<lparr>rows := filter (\<lambda>r. r ! j \<noteq> x) (rows db)\<rparr>,
               length (filter (\<lambda>r. r ! j = x) (rows db))))"

text \<open>The dictionaries \<^verbatim>\<open>read_todos\<close> returns, one field per key.\<close>

record todo =
  todo_id :: sql_value
  todo_title :: sql_value
  todo_description :: sql_value
  todo_is_completed :: sql_value
  todo_created_at :: sql_value

text \<open>
  The dictionary built from one row, and the loop of \<^verbatim>\<open>read_todos\<close> over
  \<^verbatim>\<open>cursor.fetchall()\<close>, with the list \<^verbatim>\<open>todos\<close> it appends to. Subscripting a row
  shorter than five values is an \<^verbatim>\<open>IndexError\<close>.
\<close>

definition todo_of_row :: "sql_value list \<Rightarrow> todo" where
  "todo_of_row row =
     \<lparr>todo_id = row ! 0, todo_title = row ! 1, todo_description = row ! 2,
      todo_is_completed = row ! 3, todo_created_at = row ! 4\<rparr>"

fun read_rows :: "sql_value list list \<Rightarrow> todo list \<Rightarrow> error + todo list" where
  "read_rows [] todos = Inr todos"
| "read_rows (row # fetched) todos =
     (if length row < 5 then Inl (Propagated IndexError)
      else read_rows fetched (todos @ [todo_of_row row]))"

definition read_todos :: "database \<Rightarrow> error + todo list" where
  "read_todos db = read_rows (sql_select_all db) []"


definition complete_todo :: "database \<Rightarrow> string \<Rightarrow> error + database" where
  "complete_todo db title =
     (case sql_update db ''completed'' (BoolVal True) ''title'' (TextVal title) of
        Inl e \<Rightarrow> Inl e
      | Inr (db', updated_rows) \<Rightarrow>
          if updated_rows = 0 then Inl (TodoNotFound title) else Inr db')"

definition delete_todo :: "database \<Rightarrow> string \<Rightarrow> error + database" where
  "delete_todo db title =
     (case sql_delete db ''title'' (TextVal title) of
        Inl e \<Rightarrow> Inl e
      | Inr (db', updated_rows) \<Rightarrow>
          if updated_rows = 0 then Inl (TodoNotFound title) else Inr db')"

section \<open>Weather alerts\<close>

text \<open>
  The value of \<^verbatim>\<open>response.json()\<close>: JSON as Python data (\<^verbatim>\<open>None\<close>, bool, number,
  str, list, dict). An object is the parsed dictionary, one entry per key in the order
  of the document, looked up with \<open>map_of\<close>.
\<close>

datatype json =
    JNull
  | JBool bool
  | JNum real
  | JStr string
  | JArr "json list"
  | JObj "(string \<times> json) list"

text \<open>
  What \<^verbatim>\<open>requests.get\<close> comes back with: an exception of the library, or a response
  with a status code and a body, which is JSON or not.
\<close>

datatype http_result =
    ConnectionFailed
  | Response nat "json option"

record weather_alert =
  Event :: json
  Area :: json
  Severity :: json
  Description :: json
  Instruction :: json

definition WEATHER_API_URL :: string where
  "WEATHER_API_URL = ''https://api.weather.gov''"

text \<open>\<^verbatim>\<open>d.get(k, default)\<close> of a dictionary.\<close>

definition dict_get :: "(string \<times> json) list \<Rightarrow> string \<Rightarrow> json \<Rightarrow> json" where
  "dict_get d k dflt = (case map_of d k of None \<Rightarrow> dflt | Some v \<Rightarrow> v)"

text \<open>
  \<^verbatim>\<open>feature.get("properties")\<close> is \<^verbatim>\<open>None\<close> when the key is missing. Only a
  dictionary has a method \<^verbatim>\<open>get\<close>: on any other value the call is an
  \<^verbatim>\<open>AttributeError\<close>.
\<close>

definition format_weather_alert :: "json \<Rightarrow> exn + weather_alert" where
  "format_weather_alert feature =
     (case feature of
        JObj f \<Rightarrow>
          (case dict_get f ''properties'' JNull of
             JObj alert_properties \<Rightarrow>
               Inr \<lparr>Event = dict_get alert_properties ''event'' (JStr ''Unknown''),
                    Area = dict_get alert_properties ''areaDesc'' (JStr ''Unknown''),
                    Severity = dict_get alert_properties ''severity'' (JStr ''Unknown''),
                    Description = dict_get alert_properties ''description'' (JStr ''Unknown''),
                    Instruction = dict_get alert_properties ''instruction'' (JStr ''Unknown'')\<rparr>
           | _ \<Rightarrow> Inl AttributeError)
      | _ \<Rightarrow> Inl AttributeError)"

text \<open>\<^verbatim>\<open>body["features"]\<close>: a missing key or a body that is not a dictionary raises.\<close>

definition json_getitem :: "json \<Rightarrow> string \<Rightarrow> exn + json" where
  "json_getitem body k =
     (case body of
        JObj d \<Rightarrow> (case map_of d k of None \<Rightarrow> Inl KeyError | Some v \<Rightarrow> Inr v)
      | _ \<Rightarrow> Inl TypeError)"

text \<open>
  What \<^verbatim>\<open>for feature in features\<close> runs over: the elements of a list, the
  characters of a string, the keys of a dictionary; other values are not iterable.
\<close>

definition py_iter :: "json \<Rightarrow> exn + json list" where
  "py_iter v =
     (case v of
        JArr xs \<Rightarrow> Inr xs
      | JStr s \<Rightarrow> Inr (map (\<lambda>c. JStr [c]) s)
      | JObj d \<Rightarrow> Inr (map (\<lambda>kv. JStr (fst kv)) d)
      | _ \<Rightarrow> Inl TypeError)"

text \<open>The list comprehension: the first feature that raises ends it.\<close>

fun format_features :: "json list \<Rightarrow> exn + weather_alert list" where
  "format_features [] = Inr []"
| "format_features (feature # features) =
     (case format_weather_alert feature of
        Inl e \<Rightarrow> Inl e
      | Inr alert \<Rightarrow>
          (case format_features features of
             Inl e \<Rightarrow> Inl e
           | Inr alerts \<Rightarrow> Inr (alert # alerts)))"

text \<open>
  The body of the \<^verbatim>\<open>try\<close> block. \<^verbatim>\<open>raise_for_status\<close> raises on the status codes
  400 to 599.
\<close>

definition fetch_alerts :: "http_result \<Rightarrow> exn + weather_alert list" where
  "fetch_alerts got =
     (case got of
        ConnectionFailed \<Rightarrow> Inl RequestException
      | Response status body \<Rightarrow>
          if 400 \<le> status \<and> status < 600 then Inl (HTTPError status)
          else case body of
            None \<Rightarrow> Inl JSONDecodeError
          | Some parsed \<Rightarrow>
              (case json_getitem parsed ''features'' of
                 Inl e \<Rightarrow> Inl e
               | Inr features \<Rightarrow>
                   (case py_iter features of
                      Inl e \<Rightarrow> Inl e
                    | Inr fs \<Rightarrow> format_features fs)))"

text \<open>
  The tool, against an upstream that answers each URL. Whatever the \<^verbatim>\<open>try\<close> block
  raises is wrapped in the \<^verbatim>\<open>ValueError\<close> of the handler.
\<close>

definition get_weather_alerts :: "(string \<Rightarrow> http_result) \<Rightarrow> string \<Rightarrow> error + weather_alert list" where
  "get_weather_alerts upstream state =
     (case fetch_alerts (upstream (WEATHER_API_URL @ ''/alerts/active/area/'' @ state)) of
        Inl e \<Rightarrow> Inl (WeatherAlertsError state e)
      | Inr alerts \<Rightarrow> Inr alerts)"

section \<open>Sample data\<close>

text \<open>
  A \<^verbatim>\<open>todos\<close> table laid out as the tools expect, with three rows of which two share a
  title, and an upstream that answers the alerts URL of California with a given list
  of features. The theorems below are instantiated on them.
\<close>

definition demo_table :: database where
  "demo_table =
     \<lparr>columns =
        [\<lparr>col_name = ''id'', col_default = SerialDefault\<rparr>,
         \<lparr>col_name = ''title'', col_default = NoDefault\<rparr>,
         \<lparr>col_name = ''description'', col_default = NoDefault\<rparr>,
         \<lparr>col_name = ''completed'', col_default = ConstDefault (BoolVal False)\<rparr>,
         \<lparr>col_name = ''created_at'', col_default = NowDefault\<rparr>],
      rows =
        [[IntVal 1, TextVal ''milk'', Null, BoolVal False, TimestampVal 10],
         [IntVal 2, TextVal ''eggs'', TextVal ''six'', BoolVal False, TimestampVal 11],
         [IntVal 3, TextVal ''milk'', TextVal ''again'', BoolVal False, TimestampVal 12]],
      next_serial = 4,
      clock = 13\<rparr>"

definition demo_upstream :: "json list \<Rightarrow> string \<Rightarrow> http_result" where
  "demo_upstream features url =
     (if url = ''https://api.weather.gov/alerts/active/area/CA''
      then Response 200 (Some (JObj [(''type'', JStr ''FeatureCollection''),
                                     (''features'', JArr features)]))
      else Response 404 None)"

definition demo_feature :: json where
  "demo_feature =
     JObj [(''id'', JStr ''urn:oid:1''),
           (''properties'',
            JObj [(''event'', JStr ''Flood Warning''),
                  (''areaDesc'', JStr ''Marin''),
                  (''description'', JStr ''River rising''),
                  (''instruction'', JNull)])]"

section \<open>Lookup in the store\<close>

lemma dict_contains_map_of: "dict_contains d k \<longleftrightarrow> map_of d k \<noteq> None"
  by (simp add: dict_contains_def map_of_eq_None_iff)

lemma keys_update_present: "dict_contains d k \<Longrightarrow> map fst (AList.update k v d) = map fst d"
  by (simp add: dict_contains_def update_keys)

section \<open>String replacement\<close>

text \<open>
  The scan of \<open>str_replace\<close> in terms of prefixes, then three facts that do not
  mention the scan: a string without an occurrence is returned as it is, the leftmost
  occurrence is the first one replaced, and the result is the string cut at
  occurrences of \<open>old\<close> and glued again with \<open>new\<close>.
\<close>

lemma take_eq_prefix: "take (length xs) ys = xs \<longleftrightarrow> prefix xs ys"
  by (metis append_eq_conv_conj prefix_def)

lemma str_replace_empty_old: "str_replace [] new s = concat (map (\<lambda>c. new @ [c]) s) @ new"
  by (induction s) simp_all

lemma str_replace_hit:
  assumes ne: "old \<noteq> []" and p: "prefix old s"
  shows "str_replace old new s = new @ str_replace old new (drop (length old) s)"
proof -
  obtain x xs where old: "old = x # xs" using ne by (cases old) auto
  obtain c cs where s: "s = c # cs" using p ne by (cases s) auto
  have "take (length old) s = old"
    using p by (simp only: take_eq_prefix)
  then have "take (length (x # xs)) (c # cs) = x # xs"
    unfolding old s .
  then show ?thesis
    unfolding old s str_replace.simps(4) by (rule if_P)
qed

lemma str_replace_miss:
  assumes ne: "old \<noteq> []" and p: "\<not> prefix old (c # cs)"
  shows "str_replace old new (c # cs) = c # str_replace old new cs"
proof -
  obtain x xs where old: "old = x # xs" using ne by (cases old) auto
  have "take (length old) (c # cs) \<noteq> old"
    using p by (simp only: take_eq_prefix not_False_eq_True)
  then have "take (length (x # xs)) (c # cs) \<noteq> x # xs"
    unfolding old .
  then show ?thesis
    unfolding old str_replace.simps(4) by (rule if_not_P)
qed

lemma str_replace_absent: "\<not> sublist old s \<Longrightarrow> str_replace old new s = s"
proof (induction s)
  case Nil
  then show ?case by (cases old) simp_all
next
  case (Cons c cs)
  then have ne: "old \<noteq> []" by auto
  from Cons.prems have "\<not> prefix old (c # cs)" "\<not> sublist old cs"
    by (simp_all add: sublist_Cons_right)
  with Cons.IH ne show ?case by (simp add: str_replace_miss)
qed

lemma prefix_through: "old \<noteq> [] \<Longrightarrow> prefix old (w @ butlast old) \<Longrightarrow> prefix old (w @ old @ v)"
  by (metis append.assoc append_butlast_last_id prefix_def)

lemma prefix_back:
  assumes "old \<noteq> []" "w \<noteq> []" "prefix old (w @ old @ v)"
  shows "prefix old (w @ butlast old)"
proof (rule prefix_length_prefix)
  show "prefix old (w @ old @ v)" by fact
  show "prefix (w @ butlast old) (w @ old @ v)"
    using assms(1) by (metis append.assoc append_butlast_last_id prefixI)
  show "length old \<le> length (w @ butlast old)"
    using assms(1,2) by (cases w) simp_all
qed

lemma str_replace_leftmost:
  assumes "old \<noteq> []" "\<not> sublist old (u @ butlast old)"
  shows "str_replace old new (u @ old @ v) = u @ new @ str_replace old new v"
  using assms
proof (induction u)
  case Nil
  then show ?case by (simp add: str_replace_hit)
next
  case (Cons c u)
  from Cons.prems(2) have np: "\<not> prefix old (c # u @ butlast old)" and ns: "\<not> sublist old (u @ butlast old)"
    by (simp_all add: sublist_Cons_right)
  have "\<not> prefix old (c # u @ old @ v)"
    using np prefix_back[OF Cons.prems(1), of "c # u" v] by auto
  with Cons.IH[OF Cons.prems(1) ns] Cons.prems(1) show ?case
    by (simp add: str_replace_miss)
qed

lemma not_sublist_butlast: "old \<noteq> [] \<Longrightarrow> \<not> sublist old (butlast old)"
  using sublist_length_le[of old "butlast old"] by (cases old) auto

lemma leftmost_occurrence:
  "sublist old s \<Longrightarrow> old \<noteq> [] \<Longrightarrow> \<exists>u v. s = u @ old @ v \<and> \<not> sublist old (u @ butlast old)"
proof (induction s)
  case Nil
  then show ?case by simp
next
  case (Cons c cs)
  show ?case
  proof (cases "prefix old (c # cs)")
    case True
    then obtain v where "c # cs = old @ v" by (auto simp: prefix_def)
    moreover have "\<not> sublist old (butlast old)"
      using Cons.prems(2) by (rule not_sublist_butlast)
    ultimately show ?thesis by (intro exI[of _ "[]"] exI[of _ v]) simp
  next
    case False
    with Cons.prems have "sublist old cs" by (simp add: sublist_Cons_right)
    from Cons.IH[OF this Cons.prems(2)] obtain u v where cs: "cs = u @ old @ v" and l: "\<not> sublist old (u @ butlast old)"
      by blast
    have "\<not> prefix old (c # u @ butlast old)"
      using False prefix_through[OF Cons.prems(2), of "c # u" v] cs by auto
    with l have "\<not> sublist old ((c # u) @ butlast old)" by (simp add: sublist_Cons_right)
    with cs show ?thesis by (intro exI[of _ "c # u"] exI[of _ v]) simp
  qed
qed

lemma str_replace_pieces:
  assumes ne: "old \<noteq> []"
  shows "\<exists>qs r. s = concat (map (\<lambda>p. p @ old) qs) @ r
           \<and> str_replace old new s = concat (map (\<lambda>p. p @ new) qs) @ r
           \<and> (\<forall>p\<in>set qs. \<not> sublist old (p @ butlast old))
           \<and> \<not> sublist old r"
proof (induction s rule: length_induct)
  case (1 s)
  show ?case
  proof (cases "sublist old s")
    case False
    then have "str_replace old new s = s" by (rule str_replace_absent)
    with False show ?thesis
      by (intro exI[of _ "[]"] exI[of _ s]) simp
  next
    case True
    from leftmost_occurrence[OF True ne]
    obtain u v where s: "s = u @ old @ v" and left: "\<not> sublist old (u @ butlast old)"
      by blast
    have "length v < length s" using ne by (simp add: s)
    with 1 obtain qs r where v: "v = concat (map (\<lambda>p. p @ old) qs) @ r"
      and rv: "str_replace old new v = concat (map (\<lambda>p. p @ new) qs) @ r"
      and qs: "\<forall>p\<in>set qs. \<not> sublist old (p @ butlast old)" and r: "\<not> sublist old r"
      by blast
    have "str_replace old new s = u @ new @ str_replace old new v"
      unfolding s using ne left by (rule str_replace_leftmost)
    with s v rv qs r left show ?thesis
      by (intro exI[of _ "u # qs"] exI[of _ r]) simp
  qed
qed

lemma str_replace_once:
  assumes s: "s = u @ old @ v" and uniq: "\<forall>u' v'. s = u' @ old @ v' \<longrightarrow> u' = u"
  shows "str_replace old new s = u @ new @ v"
proof (cases "old = []")
  case True
  from uniq have "s = u" "[] = u"
    using True by (auto dest: spec[of _ s] spec[of _ "[]"])
  with s True show ?thesis by simp
next
  case False
  have left: "\<not> sublist old (u @ butlast old)"
  proof
    assume "sublist old (u @ butlast old)"
    then obtain a b where ab: "u @ butlast old = a @ old @ b" by (auto simp: sublist_def)
    have "s = a @ old @ (b @ [last old] @ v)"
      using s False ab by (metis append.assoc append_butlast_last_id append_Cons append_Nil)
    with uniq have "a = u" by blast
    with ab False show False by (cases old rule: rev_cases) auto
  qed
  have right: "\<not> sublist old v"
  proof
    assume "sublist old v"
    then obtain a b where "v = a @ old @ b" by (auto simp: sublist_def)
    with s have "s = (u @ old @ a) @ old @ b" by simp
    with uniq have "u @ old @ a = u" by blast
    with False show False by simp
  qed
  show ?thesis
    unfolding s using str_replace_leftmost[OF False left] str_replace_absent[OF right] by simp
qed

section \<open>The document tools\<close>

lemma edit_document_present:
  "map_of docs doc_id = Some content \<Longrightarrow>
     edit_document docs doc_id old_str new_str =
       Inr (AList.update doc_id (str_replace old_str new_str content) docs)"
  by (simp add: edit_document_def dict_contains_map_of dict_getitem_def)

lemma edit_document_absent:
  "doc_id \<notin> set (list_docs docs) \<Longrightarrow> edit_document docs doc_id old_str new_str = Inl (DocNotFound doc_id)"
  by (simp add: edit_document_def dict_contains_def list_docs_def)

lemma edit_document_keys:
  "edit_document docs doc_id old_str new_str = Inr docs' \<Longrightarrow> list_docs docs' = list_docs docs"
  by (auto simp: edit_document_def list_docs_def keys_update_present split: if_splits sum.splits)

lemma edit_document_frame:
  "edit_document docs doc_id old_str new_str = Inr docs' \<Longrightarrow> k \<noteq> doc_id \<Longrightarrow> map_of docs' k = map_of docs k"
  by (auto simp: edit_document_def update_conv' split: if_splits sum.splits)

lemma edit_calls_keys: "list_docs (edit_calls docs calls) = list_docs docs"
proof (induction docs calls rule: edit_calls.induct)
  case (1 docs)
  show ?case by simp
next
  case (2 docs doc_id old_str new_str calls)
  show ?case
  proof (cases "edit_document docs doc_id old_str new_str")
    case (Inl e)
    with 2 show ?thesis by simp
  next
    case (Inr docs')
    with 2 edit_document_keys[OF Inr] show ?thesis by simp
  qed
qed

lemma update_same: "map_of d k = Some v \<Longrightarrow> AList.update k v d = d"
  by (induction d) (auto split: if_splits)

text \<open>
  C3. \<^verbatim>\<open>read_document\<close> fails with the not-found error exactly when the id is not a
  key of the store, whatever the context; with a context, reading a stored id returns
  the content stored under it (and sends one message to the context), and any content
  it returns is the stored one.
\<close>

theorem read_document_contract:
  "((\<exists>x. read_document docs doc_id ctx = Inl (DocNotFound x)) \<longleftrightarrow> doc_id \<notin> set (list_docs docs))
   \<and> (doc_id \<notin> set (list_docs docs) \<longrightarrow> read_document docs doc_id ctx = Inl (DocNotFound doc_id))
   \<and> (\<forall>content. map_of docs doc_id = Some content \<longrightarrow>
         read_document docs doc_id (Some c) =
           Inr (content, ctx_info c (''Reading content from '' @ doc_id)))
   \<and> (\<forall>content c'. read_document docs doc_id ctx = Inr (content, c') \<longrightarrow>
         map_of docs doc_id = Some content)"
  by (auto simp: read_document_def list_docs_def dict_contains_def dict_getitem_def map_of_eq_None_iff
           split: option.splits)

theorem read_document_contract_witness:
  "read_document docs_init ''plan.md'' (Some []) =
     Inr (''The plan outlines the steps for the project's implementation.'',
          [''Reading content from plan.md''])
   \<and> read_document docs_init ''memo.md'' (Some []) = Inl (DocNotFound ''memo.md'')"
proof -
  have present: "map_of docs_init ''plan.md'' = Some ''The plan outlines the steps for the project's implementation.''"
    by (simp add: docs_init_def)
  have absent: "''memo.md'' \<notin> set (list_docs docs_init)"
    by (simp add: docs_init_def list_docs_def)
  from present read_document_contract[of docs_init "''plan.md''" "Some []" "[]"]
  have "read_document docs_init ''plan.md'' (Some []) =
     Inr (''The plan outlines the steps for the project's implementation.'',
          ctx_info [] (''Reading content from '' @ ''plan.md''))"
    by blast
  moreover from absent read_document_contract[of docs_init "''memo.md''" "Some []" "[]"]
  have "read_document docs_init ''memo.md'' (Some []) = Inl (DocNotFound ''memo.md'')"
    by blast
  ultimately show ?thesis by (simp add: ctx_info_def)
qed

text \<open>
  C8. \<^verbatim>\<open>fetch_doc\<close> and \<^verbatim>\<open>read_document\<close> (called with a context) fail on the same
  ids with the same error and return the same content on the same ids; the not-found
  failures agree whatever the context. \<^verbatim>\<open>fetch_doc\<close> takes no context and so sends
  no message.
\<close>

theorem fetch_doc_same_contract:
  "((read_document docs doc_id (Some c) = Inl e) \<longleftrightarrow> (fetch_doc docs doc_id = Inl e))
   \<and> ((\<exists>c'. read_document docs doc_id (Some c) = Inr (content, c')) \<longleftrightarrow>
        (fetch_doc docs doc_id = Inr content))
   \<and> ((read_document docs doc_id ctx = Inl (DocNotFound x)) \<longleftrightarrow>
        (fetch_doc docs doc_id = Inl (DocNotFound x)))"
  by (auto simp: read_document_def fetch_doc_def dict_getitem_def dict_contains_map_of
           split: option.splits sum.splits)

text \<open>
  C9. With the empty string as \<^verbatim>\<open>old_str\<close>, editing a stored document whose content
  is not empty with a \<^verbatim>\<open>new_str\<close> that is not empty succeeds and is not a no-op: the
  new content is \<^verbatim>\<open>new_str\<close> put before every character of the old content, and once
  more at the end.
\<close>

theorem edit_document_empty_old:
  assumes "map_of docs doc_id = Some content" "content \<noteq> []" "new_str \<noteq> []"
  shows "\<exists>docs' content'. edit_document docs doc_id [] new_str = Inr docs'
           \<and> map_of docs' doc_id = Some content'
           \<and> content' = concat (map (\<lambda>c. new_str @ [c]) content) @ new_str
           \<and> content' \<noteq> content"
proof -
  let ?content' = "str_replace [] new_str content"
  have e: "edit_document docs doc_id [] new_str = Inr (AList.update doc_id ?content' docs)"
    using assms(1) by (rule edit_document_present)
  have eq: "?content' = concat (map (\<lambda>c. new_str @ [c]) content) @ new_str"
    by (rule str_replace_empty_old)
  have "length ?content' > length content"
  proof -
    have "length (concat (map (\<lambda>c. new_str @ [c]) content)) \<ge> length content"
      by (induction content) simp_all
    moreover have "0 < length new_str" using assms(3) by simp
    ultimately show ?thesis unfolding eq length_append by linarith
  qed
  then have "?content' \<noteq> content" by auto
  with e eq show ?thesis by (simp add: update_conv')
qed

theorem edit_document_empty_old_witness:
  "\<exists>docs'. edit_document [(''a.txt'', ''abc'')] ''a.txt'' '''' ''-'' = Inr docs'
      \<and> map_of docs' ''a.txt'' = Some ''-a-b-c-''"
  using edit_document_empty_old[of "[(''a.txt'', ''abc'')]" "''a.txt''" "''abc''" "''-''"]
  by simp

text \<open>
  C2. \<^verbatim>\<open>edit_document\<close> fails with the not-found error on an id that is not a key.
  On a stored id it succeeds and stores a new content under the id, which is the old
  content with every occurrence of \<^verbatim>\<open>old_str\<close> replaced by \<^verbatim>\<open>new_str\<close>: for a
  non-empty \<^verbatim>\<open>old_str\<close> the old content is a sequence of pieces, each followed by
  \<^verbatim>\<open>old_str\<close>, and a rest, the new content is the same pieces, each followed by
  \<^verbatim>\<open>new_str\<close>, and the same rest, and no occurrence of \<^verbatim>\<open>old_str\<close> is left out (none
  starts inside a piece, none lies in the rest; occurrences that overlap are taken
  from the left); for the empty \<^verbatim>\<open>old_str\<close>, which occurs at every position,
  \<^verbatim>\<open>new_str\<close> is put at every position. If \<^verbatim>\<open>old_str\<close> occurs exactly once the new
  content is the old one with that occurrence replaced, and if it does not occur the
  content and the whole store are unchanged.
\<close>

theorem edit_document_replaces:
  "(doc_id \<notin> set (list_docs docs) \<longrightarrow>
      edit_document docs doc_id old_str new_str = Inl (DocNotFound doc_id))
   \<and> (\<forall>content. map_of docs doc_id = Some content \<longrightarrow>
        (\<exists>docs' content'.
            edit_document docs doc_id old_str new_str = Inr docs'
          \<and> map_of docs' doc_id = Some content'
          \<and> (old_str \<noteq> [] \<longrightarrow>
               (\<exists>qs r. content = concat (map (\<lambda>p. p @ old_str) qs) @ r
                  \<and> content' = concat (map (\<lambda>p. p @ new_str) qs) @ r
                  \<and> (\<forall>p\<in>set qs. \<not> sublist old_str (p @ butlast old_str))
                  \<and> \<not> sublist old_str r))
          \<and> (old_str = [] \<longrightarrow> content' = concat (map (\<lambda>c. new_str @ [c]) content) @ new_str)
          \<and> (\<forall>u v. content = u @ old_str @ v
                 \<and> (\<forall>u' v'. content = u' @ old_str @ v' \<longrightarrow> u' = u)
                 \<longrightarrow> content' = u @ new_str @ v)
          \<and> (\<not> sublist old_str content \<longrightarrow> content' = content \<and> docs' = docs)))"
proof (intro conjI allI impI)
  assume "doc_id \<notin> set (list_docs docs)"
  then show "edit_document docs doc_id old_str new_str = Inl (DocNotFound doc_id)"
    by (rule edit_document_absent)
next
  fix content
  assume stored: "map_of docs doc_id = Some content"
  let ?content' = "str_replace old_str new_str content"
  let ?docs' = "AList.update doc_id ?content' docs"
  have run: "edit_document docs doc_id old_str new_str = Inr ?docs'"
    using stored by (rule edit_document_present)
  have look: "map_of ?docs' doc_id = Some ?content'"
    by (simp add: update_conv')
  have pieces: "old_str \<noteq> [] \<longrightarrow>
      (\<exists>qs r. content = concat (map (\<lambda>p. p @ old_str) qs) @ r
         \<and> ?content' = concat (map (\<lambda>p. p @ new_str) qs) @ r
         \<and> (\<forall>p\<in>set qs. \<not> sublist old_str (p @ butlast old_str))
         \<and> \<not> sublist old_str r)"
    using str_replace_pieces[of old_str content new_str] by blast
  have empty: "old_str = [] \<longrightarrow> ?content' = concat (map (\<lambda>c. new_str @ [c]) content) @ new_str"
    by (simp add: str_replace_empty_old)
  have once: "\<forall>u v. content = u @ old_str @ v
        \<and> (\<forall>u' v'. content = u' @ old_str @ v' \<longrightarrow> u' = u)
        \<longrightarrow> ?content' = u @ new_str @ v"
    using str_replace_once[of content _ old_str _ new_str] by blast
  have none: "\<not> sublist old_str content \<longrightarrow> ?content' = content \<and> ?docs' = docs"
    using stored by (simp add: str_replace_absent update_same)
  from run look pieces empty once none
  show "\<exists>docs' content'.
            edit_document docs doc_id old_str new_str = Inr docs'
          \<and> map_of docs' doc_id = Some content'
          \<and> (old_str \<noteq> [] \<longrightarrow>
               (\<exists>qs r. content = concat (map (\<lambda>p. p @ old_str) qs) @ r
                  \<and> content' = concat (map (\<lambda>p. p @ new_str) qs) @ r
                  \<and> (\<forall>p\<in>set qs. \<not> sublist old_str (p @ butlast old_str))
                  \<and> \<not> sublist old_str r))
          \<and> (old_str = [] \<longrightarrow> content' = concat (map (\<lambda>c. new_str @ [c]) content) @ new_str)
          \<and> (\<forall>u v. content = u @ old_str @ v
                 \<and> (\<forall>u' v'. content = u' @ old_str @ v' \<longrightarrow> u' = u)
                 \<longrightarrow> content' = u @ new_str @ v)
          \<and> (\<not> sublist old_str content \<longrightarrow> content' = content \<and> docs' = docs)"
    by (intro exI[of _ ?docs'] exI[of _ ?content'] conjI)
qed

lemma abc_single_b: "\<forall>u' v'. ''abc'' = u' @ ''b'' @ v' \<longrightarrow> u' = ''a''"
proof (intro allI impI)
  fix u' v' :: string
  assume h: "''abc'' = u' @ ''b'' @ v'"
  show "u' = ''a''"
  proof (cases u')
    case Nil
    with h show ?thesis by simp
  next
    case (Cons x w)
    with h have x: "x = CHR ''a''" and w: "''bc'' = w @ ''b'' @ v'" by simp_all
    show ?thesis
    proof (cases w)
      case Nil
      with Cons x show ?thesis by simp
    next
      case (Cons y z)
      with w have "''c'' = z @ ''b'' @ v'" by simp
      then show ?thesis by (cases z) simp_all
    qed
  qed
qed

theorem edit_document_replaces_witness:
  "edit_document docs_init ''memo.md'' ''plan'' ''scheme'' = Inl (DocNotFound ''memo.md'')
   \<and> (\<exists>docs'. edit_document [(''a.txt'', ''abc'')] ''a.txt'' ''b'' ''xy'' = Inr docs'
         \<and> map_of docs' ''a.txt'' = Some ''axyc'')
   \<and> edit_document [(''a.txt'', ''abc'')] ''a.txt'' ''ca'' ''xy'' = Inr [(''a.txt'', ''abc'')]"
proof (intro conjI)
  have absent: "''memo.md'' \<notin> set (list_docs docs_init)"
    by (simp add: docs_init_def list_docs_def)
  show "edit_document docs_init ''memo.md'' ''plan'' ''scheme'' = Inl (DocNotFound ''memo.md'')"
    by (rule edit_document_replaces[THEN conjunct1, THEN mp, OF absent])
next
  have stored: "map_of [(''a.txt'', ''abc'')] ''a.txt'' = Some ''abc''"
    by simp
  have occ: "''abc'' = ''a'' @ ''b'' @ ''c''
      \<and> (\<forall>u' v'. ''abc'' = u' @ ''b'' @ v' \<longrightarrow> u' = ''a'')"
    using abc_single_b by simp
  from edit_document_replaces[THEN conjunct2, THEN spec, THEN mp, OF stored, of "''b''" "''xy''"]
  obtain docs' content' where
    run: "edit_document [(''a.txt'', ''abc'')] ''a.txt'' ''b'' ''xy'' = Inr docs'" and
    look: "map_of docs' ''a.txt'' = Some content'" and
    once: "\<forall>u v. ''abc'' = u @ ''b'' @ v
                 \<and> (\<forall>u' v'. ''abc'' = u' @ ''b'' @ v' \<longrightarrow> u' = u)
                 \<longrightarrow> content' = u @ ''xy'' @ v"
    by (elim exE conjE)
  from once occ have "content' = ''a'' @ ''xy'' @ ''c''"
    by (elim allE[of _ "''a''"] allE[of _ "''c''"] impE)
  with run look
  show "\<exists>docs'. edit_document [(''a.txt'', ''abc'')] ''a.txt'' ''b'' ''xy'' = Inr docs'
         \<and> map_of docs' ''a.txt'' = Some ''axyc''"
    by (intro exI[of _ docs']) simp
next
  have stored: "map_of [(''a.txt'', ''abc'')] ''a.txt'' = Some ''abc''"
    by simp
  have missing: "\<not> sublist ''ca'' ''abc''"
    by (simp add: sublist_Cons_right)
  from edit_document_replaces[THEN conjunct2, THEN spec, THEN mp, OF stored, of "''ca''" "''xy''"]
  obtain docs' content' where
    run: "edit_document [(''a.txt'', ''abc'')] ''a.txt'' ''ca'' ''xy'' = Inr docs'" and
    none: "\<not> sublist ''ca'' ''abc'' \<longrightarrow> content' = ''abc'' \<and> docs' = [(''a.txt'', ''abc'')]"
    by (elim exE conjE)
  from none missing have "docs' = [(''a.txt'', ''abc'')]"
    by (elim impE conjE)
  with run show "edit_document [(''a.txt'', ''abc'')] ''a.txt'' ''ca'' ''xy'' = Inr [(''a.txt'', ''abc'')]"
    by (simp only:)
qed

text \<open>
  C7. \<^verbatim>\<open>list_docs\<close> returns the keys in the order of the table: on the initial store
  the six seeded ids, and the same list after any sequence of \<^verbatim>\<open>edit_document\<close>
  calls, on the initial store as on any other. A successful \<^verbatim>\<open>edit_document\<close> keeps
  the list of keys and the content of every other id.
\<close>

theorem list_docs_stable:
  "list_docs docs_init =
     [''deposition.md'', ''report.pdf'', ''financials.docx'', ''outlook.pdf'', ''plan.md'', ''spec.txt'']
   \<and> list_docs (edit_calls docs_init calls) =
     [''deposition.md'', ''report.pdf'', ''financials.docx'', ''outlook.pdf'', ''plan.md'', ''spec.txt'']
   \<and> list_docs (edit_calls docs calls) = list_docs docs
   \<and> (\<forall>docs'. edit_document docs doc_id old_str new_str = Inr docs' \<longrightarrow>
         list_docs docs' = list_docs docs
         \<and> (\<forall>k. k \<noteq> doc_id \<longrightarrow> map_of docs' k = map_of docs k))"
proof -
  have seeded: "list_docs docs_init =
     [''deposition.md'', ''report.pdf'', ''financials.docx'', ''outlook.pdf'', ''plan.md'', ''spec.txt'']"
    by (simp add: docs_init_def list_docs_def)
  show ?thesis
    using seeded edit_calls_keys[of docs_init calls] edit_calls_keys[of docs calls]
      edit_document_keys[of docs doc_id old_str new_str]
      edit_document_frame[of docs doc_id old_str new_str]
    by auto
qed

theorem list_docs_stable_witness:
  "(\<exists>docs'. edit_document docs_init ''plan.md'' ''plan'' ''scheme'' = Inr docs'
      \<and> list_docs docs' = list_docs docs_init
      \<and> map_of docs' ''spec.txt'' = map_of docs_init ''spec.txt''
      \<and> map_of docs' ''plan.md'' =
          Some ''The scheme outlines the steps for the project's implementation.'')"
proof -
  have run: "edit_document docs_init ''plan.md'' ''plan'' ''scheme'' =
      Inr (AList.update ''plan.md''
             ''The scheme outlines the steps for the project's implementation.'' docs_init)"
    by (simp add: edit_document_def dict_contains_def dict_getitem_def docs_init_def)
  have other: "''spec.txt'' \<noteq> ''plan.md''" by simp
  from run other list_docs_stable[of "[]" docs_init "''plan.md''" "''plan''" "''scheme''"]
  show ?thesis by (auto simp: update_conv')
qed

section \<open>The todo tools\<close>

lemma column_index_Some:
  "column_index cs n = Some i \<Longrightarrow> i < length cs \<and> col_name (cs ! i) = n"
proof (induction cs arbitrary: i)
  case Nil
  then show ?case by simp
next
  case (Cons c cs)
  show ?case
  proof (cases "col_name c = n")
    case True
    with Cons.prems show ?thesis by simp
  next
    case False
    with Cons.prems obtain k where k: "column_index cs n = Some k" and i: "i = Suc k"
      by auto
    from Cons.IH[OF k] i show ?thesis by simp
  qed
qed

lemma read_rows_all:
  "read_rows fetched todos =
     (if \<forall>r \<in> set fetched. 5 \<le> length r then Inr (todos @ map todo_of_row fetched)
      else Inl (Propagated IndexError))"
  by (induction fetched arbitrary: todos) auto

lemma read_todos_wf:
  assumes "table_wf db" "5 \<le> length (columns db)"
  shows "read_todos db = Inr (map todo_of_row (rows db))"
  using assms by (simp add: read_todos_def sql_select_all_def read_rows_all table_wf_def)

text \<open>
  A statement with row count zero leaves the table as it was. So a tool that raises
  its not-found error after the commit has changed nothing, and the error value needs
  no state.
\<close>

lemma sql_update_zero_unchanged:
  "sql_update db set_col v where_col x = Inr (db', 0) \<Longrightarrow> db' = db"
proof -
  assume h: "sql_update db set_col v where_col x = Inr (db', 0)"
  then obtain i j where j: "column_index (columns db) where_col = Some j"
    and i: "column_index (columns db) set_col = Some i"
    and db': "db' = db\<lparr>rows := map (\<lambda>r. if r ! j = x then r[i := v] else r) (rows db)\<rparr>"
    and z: "length (filter (\<lambda>r. r ! j = x) (rows db)) = 0"
    by (auto simp: sql_update_def split: option.splits)
  from z have "\<forall>r \<in> set (rows db). r ! j \<noteq> x" by (simp add: filter_empty_conv)
  then have "map (\<lambda>r. if r ! j = x then r[i := v] else r) (rows db) = rows db"
    by (simp add: map_idI)
  with db' show ?thesis by simp
qed

lemma sql_delete_zero_unchanged:
  "sql_delete db where_col x = Inr (db', 0) \<Longrightarrow> db' = db"
proof -
  assume h: "sql_delete db where_col x = Inr (db', 0)"
  then obtain j where j: "column_index (columns db) where_col = Some j"
    and db': "db' = db\<lparr>rows := filter (\<lambda>r. r ! j \<noteq> x) (rows db)\<rparr>"
    and z: "length (filter (\<lambda>r. r ! j = x) (rows db)) = 0"
    by (auto simp: sql_delete_def split: option.splits)
  from z have "\<forall>r \<in> set (rows db). r ! j \<noteq> x" by (simp add: filter_empty_conv)
  then have "filter (\<lambda>r. r ! j \<noteq> x) (rows db) = rows db"
    by simp
  with db' show ?thesis by simp
qed

lemma complete_todo_columns:
  assumes "column_index (columns db) ''completed'' = Some i"
      and "column_index (columns db) ''title'' = Some j"
  shows "complete_todo db title =
     (if \<forall>r \<in> set (rows db). r ! j \<noteq> TextVal title then Inl (TodoNotFound title)
      else Inr (db\<lparr>rows := map (\<lambda>r. if r ! j = TextVal title then r[i := BoolVal True] else r)
                              (rows db)\<rparr>))"
  using assms by (simp add: complete_todo_def sql_update_def filter_empty_conv)

lemma delete_todo_columns:
  assumes "column_index (columns db) ''title'' = Some j"
  shows "delete_todo db title =
     (if \<forall>r \<in> set (rows db). r ! j \<noteq> TextVal title then Inl (TodoNotFound title)
      else Inr (db\<lparr>rows := filter (\<lambda>r. r ! j \<noteq> TextVal title) (rows db)\<rparr>))"
  using assms by (simp add: delete_todo_def sql_delete_def filter_empty_conv)

lemma complete_todo_wf:
  "table_wf db \<Longrightarrow> complete_todo db title = Inr db' \<Longrightarrow> table_wf db' \<and> columns db' = columns db"
  by (auto simp: complete_todo_def sql_update_def table_wf_def split: option.splits if_splits)

lemma sql_update_error:
  "sql_update db set_col v where_col x = Inl e \<Longrightarrow> e = Propagated UndefinedColumn"
  by (auto simp: sql_update_def split: option.splits)

lemma sql_delete_error:
  "sql_delete db where_col x = Inl e \<Longrightarrow> e = Propagated UndefinedColumn"
  by (auto simp: sql_delete_def split: option.splits)

lemma complete_todo_no_column:
  "column_index (columns db) ''completed'' = None \<Longrightarrow>
     complete_todo db title = Inl (Propagated UndefinedColumn)"
  by (simp add: complete_todo_def sql_update_def split: option.splits)

lemma demo_table_columns: "todos_columns (columns demo_table)"
  by (simp add: demo_table_def todos_columns_def)

lemma demo_table_completed: "completed_is_fourth (columns demo_table)"
  by (simp add: demo_table_def completed_is_fourth_def)

lemma demo_table_wf: "table_wf demo_table"
  by (simp add: demo_table_def table_wf_def)


text \<open>
  C5. \<^verbatim>\<open>complete_todo\<close> and \<^verbatim>\<open>delete_todo\<close> fail with the not-found error exactly
  when their statement ran and its row count is zero. On a table that has the columns
  the statements name, when at least one row carries the title the tool succeeds and
  affects every such row: after \<^verbatim>\<open>complete_todo\<close> each row with the title has its
  \<^verbatim>\<open>completed\<close> cell set and the other rows are as before; after \<^verbatim>\<open>delete_todo\<close> the
  rows with the title are gone and the others remain.
\<close>

theorem todo_not_found_iff_no_rows:
  "(complete_todo db title = Inl (TodoNotFound title) \<longleftrightarrow>
      (\<exists>db'. sql_update db ''completed'' (BoolVal True) ''title'' (TextVal title) = Inr (db', 0)))
   \<and> (delete_todo db title = Inl (TodoNotFound title) \<longleftrightarrow>
      (\<exists>db'. sql_delete db ''title'' (TextVal title) = Inr (db', 0)))
   \<and> (\<forall>i j. column_index (columns db) ''completed'' = Some i
           \<and> column_index (columns db) ''title'' = Some j \<and> table_wf db
           \<and> (\<exists>r \<in> set (rows db). r ! j = TextVal title) \<longrightarrow>
         (\<exists>db'. complete_todo db title = Inr db'
            \<and> rows db' = map (\<lambda>r. if r ! j = TextVal title then r[i := BoolVal True] else r) (rows db)
            \<and> (\<forall>r' \<in> set (rows db'). r' ! j = TextVal title \<longrightarrow> r' ! i = BoolVal True)))
   \<and> (\<forall>j. column_index (columns db) ''title'' = Some j
           \<and> (\<exists>r \<in> set (rows db). r ! j = TextVal title) \<longrightarrow>
         (\<exists>db'. delete_todo db title = Inr db'
            \<and> rows db' = filter (\<lambda>r. r ! j \<noteq> TextVal title) (rows db)
            \<and> (\<forall>r' \<in> set (rows db'). r' ! j \<noteq> TextVal title)))"
proof (intro conjI allI impI)
  show "complete_todo db title = Inl (TodoNotFound title) \<longleftrightarrow>
      (\<exists>db'. sql_update db ''completed'' (BoolVal True) ''title'' (TextVal title) = Inr (db', 0))"
    by (auto simp: complete_todo_def split: sum.splits if_splits dest: sql_update_error)
next
  show "delete_todo db title = Inl (TodoNotFound title) \<longleftrightarrow>
      (\<exists>db'. sql_delete db ''title'' (TextVal title) = Inr (db', 0))"
    by (auto simp: delete_todo_def split: sum.splits if_splits dest: sql_delete_error)
next
  fix i j
  assume h: "column_index (columns db) ''completed'' = Some i
           \<and> column_index (columns db) ''title'' = Some j \<and> table_wf db
           \<and> (\<exists>r \<in> set (rows db). r ! j = TextVal title)"
  let ?f = "\<lambda>r. if r ! j = TextVal title then r[i := BoolVal True] else r"
  from h have ci: "column_index (columns db) ''completed'' = Some i"
    and cj: "column_index (columns db) ''title'' = Some j" and wf: "table_wf db"
    and some: "\<not> (\<forall>r \<in> set (rows db). r ! j \<noteq> TextVal title)"
    by auto
  from column_index_Some[OF ci] column_index_Some[OF cj]
  have i: "i < length (columns db)" and ij: "i \<noteq> j"
    by auto
  have run: "complete_todo db title = Inr (db\<lparr>rows := map ?f (rows db)\<rparr>)"
    using some by (simp only: complete_todo_columns[OF ci cj] if_False)
  have "\<forall>r' \<in> set (map ?f (rows db)). r' ! j = TextVal title \<longrightarrow> r' ! i = BoolVal True"
    using wf i ij by (auto simp: table_wf_def)
  with run show "\<exists>db'. complete_todo db title = Inr db'
            \<and> rows db' = map ?f (rows db)
            \<and> (\<forall>r' \<in> set (rows db'). r' ! j = TextVal title \<longrightarrow> r' ! i = BoolVal True)"
    by simp
next
  fix j
  assume h: "column_index (columns db) ''title'' = Some j
           \<and> (\<exists>r \<in> set (rows db). r ! j = TextVal title)"
  then have cj: "column_index (columns db) ''title'' = Some j"
    and some: "\<not> (\<forall>r \<in> set (rows db). r ! j \<noteq> TextVal title)"
    by auto
  have run: "delete_todo db title = Inr (db\<lparr>rows := filter (\<lambda>r. r ! j \<noteq> TextVal title) (rows db)\<rparr>)"
    using some by (simp only: delete_todo_columns[OF cj] if_False)
  then show "\<exists>db'. delete_todo db title = Inr db'
            \<and> rows db' = filter (\<lambda>r. r ! j \<noteq> TextVal title) (rows db)
            \<and> (\<forall>r' \<in> set (rows db'). r' ! j \<noteq> TextVal title)"
    by simp
qed

theorem todo_not_found_iff_no_rows_witness:
  "(\<exists>db'. complete_todo demo_table ''milk'' = Inr db'
       \<and> rows db' =
          [[IntVal 1, TextVal ''milk'', Null, BoolVal True, TimestampVal 10],
           [IntVal 2, TextVal ''eggs'', TextVal ''six'', BoolVal False, TimestampVal 11],
           [IntVal 3, TextVal ''milk'', TextVal ''again'', BoolVal True, TimestampVal 12]])
   \<and> (\<exists>db'. delete_todo demo_table ''milk'' = Inr db'
       \<and> rows db' = [[IntVal 2, TextVal ''eggs'', TextVal ''six'', BoolVal False, TimestampVal 11]])
   \<and> complete_todo demo_table ''tea'' = Inl (TodoNotFound ''tea'')
   \<and> delete_todo demo_table ''tea'' = Inl (TodoNotFound ''tea'')"
proof (intro conjI)
  have h: "column_index (columns demo_table) ''completed'' = Some 3
           \<and> column_index (columns demo_table) ''title'' = Some 1 \<and> table_wf demo_table
           \<and> (\<exists>r \<in> set (rows demo_table). r ! 1 = TextVal ''milk'')"
    using demo_table_wf by (simp add: demo_table_def)
  from todo_not_found_iff_no_rows[of demo_table "''milk''", THEN conjunct2, THEN conjunct2,
      THEN conjunct1, THEN spec, THEN spec, THEN mp, OF h]
  obtain db' where "complete_todo demo_table ''milk'' = Inr db'"
    and "rows db' = map (\<lambda>r. if r ! 1 = TextVal ''milk'' then r[3 := BoolVal True] else r)
                        (rows demo_table)"
    by (elim exE conjE)
  then show "\<exists>db'. complete_todo demo_table ''milk'' = Inr db'
       \<and> rows db' =
          [[IntVal 1, TextVal ''milk'', Null, BoolVal True, TimestampVal 10],
           [IntVal 2, TextVal ''eggs'', TextVal ''six'', BoolVal False, TimestampVal 11],
           [IntVal 3, TextVal ''milk'', TextVal ''again'', BoolVal True, TimestampVal 12]]"
    by (intro exI[of _ db']) (simp add: demo_table_def)
next
  have h: "column_index (columns demo_table) ''title'' = Some 1
           \<and> (\<exists>r \<in> set (rows demo_table). r ! 1 = TextVal ''milk'')"
    by (simp add: demo_table_def)
  from todo_not_found_iff_no_rows[of demo_table "''milk''", THEN conjunct2, THEN conjunct2,
      THEN conjunct2, THEN spec, THEN mp, OF h]
  obtain db' where "delete_todo demo_table ''milk'' = Inr db'"
    and "rows db' = filter (\<lambda>r. r ! 1 \<noteq> TextVal ''milk'') (rows demo_table)"
    by (elim exE conjE)
  then show "\<exists>db'. delete_todo demo_table ''milk'' = Inr db'
       \<and> rows db' = [[IntVal 2, TextVal ''eggs'', TextVal ''six'', BoolVal False, TimestampVal 11]]"
    by (intro exI[of _ db']) (simp add: demo_table_def)
next
  have "sql_update demo_table ''completed'' (BoolVal True) ''title'' (TextVal ''tea'') =
          Inr (demo_table, 0)"
    by (simp add: sql_update_def demo_table_def)
  then have "\<exists>db'. sql_update demo_table ''completed'' (BoolVal True) ''title'' (TextVal ''tea'') =
          Inr (db', 0)"
    by (rule exI)
  then show "complete_todo demo_table ''tea'' = Inl (TodoNotFound ''tea'')"
    by (rule todo_not_found_iff_no_rows[of demo_table "''tea''", THEN conjunct1, THEN iffD2])
next
  have "sql_delete demo_table ''title'' (TextVal ''tea'') = Inr (demo_table, 0)"
    by (simp add: sql_delete_def demo_table_def)
  then have "\<exists>db'. sql_delete demo_table ''title'' (TextVal ''tea'') = Inr (db', 0)"
    by (rule exI)
  then show "delete_todo demo_table ''tea'' = Inl (TodoNotFound ''tea'')"
    by (rule todo_not_found_iff_no_rows[of demo_table "''tea''", THEN conjunct2, THEN conjunct1, THEN iffD2])
qed

text \<open>
  C1. On a table laid out as the tools expect, after a successful
  \<^verbatim>\<open>complete_todo\<close> for a title, \<^verbatim>\<open>read_todos\<close> succeeds and returns, for every row
  that carried the title, a record with that row's id, title, description and
  creation time whose is_completed is true; every record with the title has
  is_completed true.
\<close>

theorem complete_todo_then_read:
  assumes cols: "todos_columns (columns db)" and flag: "completed_is_fourth (columns db)"
      and wf: "table_wf db"
      and run: "complete_todo db title = Inr db'"
      and r: "r \<in> set (rows db)" and match: "r ! 1 = TextVal title"
  shows "\<exists>todos. read_todos db' = Inr todos
           \<and> (\<exists>t \<in> set todos. todo_id t = r ! 0 \<and> todo_title t = TextVal title
                  \<and> todo_description t = r ! 2 \<and> todo_created_at t = r ! 4
                  \<and> todo_is_completed t = BoolVal True)
           \<and> (\<forall>t \<in> set todos. todo_title t = TextVal title \<longrightarrow> todo_is_completed t = BoolVal True)"
proof -
  let ?f = "\<lambda>r. if r ! 1 = TextVal title then r[3 := BoolVal True] else r"
  from cols have c1: "column_index (columns db) ''title'' = Some 1"
    and five: "5 \<le> length (columns db)"
    by (simp_all add: todos_columns_def)
  from run complete_todo_no_column[of db title]
  have "column_index (columns db) ''completed'' \<noteq> None"
    by auto
  with flag have c3: "column_index (columns db) ''completed'' = Some 3"
    by (simp add: completed_is_fourth_def)
  from run complete_todo_columns[OF c3 c1, of title]
  have db': "db' = db\<lparr>rows := map ?f (rows db)\<rparr>"
    by (simp split: if_splits)
  from complete_todo_wf[OF wf run] five
  have "read_todos db' = Inr (map todo_of_row (rows db'))"
    by (intro read_todos_wf) simp_all
  then have rd: "read_todos db' = Inr (map (\<lambda>r. todo_of_row (?f r)) (rows db))"
    by (simp add: db' comp_def)
  have len: "\<And>r. r \<in> set (rows db) \<Longrightarrow> 5 \<le> length r"
    using wf five by (simp add: table_wf_def)
  have one: "\<exists>t \<in> set (map (\<lambda>r. todo_of_row (?f r)) (rows db)). todo_id t = r ! 0
                  \<and> todo_title t = TextVal title
                  \<and> todo_description t = r ! 2 \<and> todo_created_at t = r ! 4
                  \<and> todo_is_completed t = BoolVal True"
  proof (rule bexI[of _ "todo_of_row (?f r)"])
    show "todo_of_row (?f r) \<in> set (map (\<lambda>r. todo_of_row (?f r)) (rows db))"
      using r by simp
    show "todo_id (todo_of_row (?f r)) = r ! 0
                  \<and> todo_title (todo_of_row (?f r)) = TextVal title
                  \<and> todo_description (todo_of_row (?f r)) = r ! 2
                  \<and> todo_created_at (todo_of_row (?f r)) = r ! 4
                  \<and> todo_is_completed (todo_of_row (?f r)) = BoolVal True"
      using match len[OF r] by (simp add: todo_of_row_def)
  qed
  have every: "\<forall>t \<in> set (map (\<lambda>r. todo_of_row (?f r)) (rows db)).
      todo_title t = TextVal title \<longrightarrow> todo_is_completed t = BoolVal True"
  proof (intro ballI impI)
    fix t
    assume t: "t \<in> set (map (\<lambda>r. todo_of_row (?f r)) (rows db))"
      and tt: "todo_title t = TextVal title"
    from t obtain q where q: "q \<in> set (rows db)" and tq: "t = todo_of_row (?f q)"
      by auto
    from tt tq have "q ! 1 = TextVal title"
      by (simp add: todo_of_row_def split: if_splits)
    with tq len[OF q] show "todo_is_completed t = BoolVal True"
      by (simp add: todo_of_row_def)
  qed
  from rd one every show ?thesis by blast
qed

theorem complete_todo_then_read_witness:
  "\<exists>db' todos. complete_todo demo_table ''milk'' = Inr db' \<and> read_todos db' = Inr todos
      \<and> (\<exists>t \<in> set todos. todo_id t = IntVal 3 \<and> todo_title t = TextVal ''milk''
             \<and> todo_description t = TextVal ''again'' \<and> todo_created_at t = TimestampVal 12
             \<and> todo_is_completed t = BoolVal True)"
proof -
  let ?db' = "demo_table\<lparr>rows :=
        [[IntVal 1, TextVal ''milk'', Null, BoolVal True, TimestampVal 10],
         [IntVal 2, TextVal ''eggs'', TextVal ''six'', BoolVal False, TimestampVal 11],
         [IntVal 3, TextVal ''milk'', TextVal ''again'', BoolVal True, TimestampVal 12]]\<rparr>"
  let ?r = "[IntVal 3, TextVal ''milk'', TextVal ''again'', BoolVal False, TimestampVal 12]"
  have run: "complete_todo demo_table ''milk'' = Inr ?db'"
    by (simp add: complete_todo_def sql_update_def demo_table_def)
  have r: "?r \<in> set (rows demo_table)"
    by (simp add: demo_table_def)
  have match: "?r ! 1 = TextVal ''milk''"
    by simp
  from complete_todo_then_read[OF demo_table_columns demo_table_completed demo_table_wf run r match]
  obtain todos where "read_todos ?db' = Inr todos"
    and "\<exists>t \<in> set todos. todo_id t = ?r ! 0 \<and> todo_title t = TextVal ''milk''
                  \<and> todo_description t = ?r ! 2 \<and> todo_created_at t = ?r ! 4
                  \<and> todo_is_completed t = BoolVal True"
    by (elim exE conjE)
  with run show ?thesis
    by (intro exI[of _ ?db'] exI[of _ todos]) simp
qed



section \<open>The weather tool\<close>

lemma format_weather_alert_Inr:
  "format_weather_alert feature = Inr alert \<longleftrightarrow>
     (\<exists>f props. feature = JObj f \<and> map_of f ''properties'' = Some (JObj props)
        \<and> alert = \<lparr>Event = dict_get props ''event'' (JStr ''Unknown''),
                    Area = dict_get props ''areaDesc'' (JStr ''Unknown''),
                    Severity = dict_get props ''severity'' (JStr ''Unknown''),
                    Description = dict_get props ''description'' (JStr ''Unknown''),
                    Instruction = dict_get props ''instruction'' (JStr ''Unknown'')\<rparr>)"
  by (auto simp: format_weather_alert_def dict_get_def split: json.splits option.splits)

lemma format_weather_alert_Inl:
  "format_weather_alert feature = Inl e \<longleftrightarrow>
     e = AttributeError
     \<and> (\<forall>f props. \<not> (feature = JObj f \<and> map_of f ''properties'' = Some (JObj props)))"
  by (auto simp: format_weather_alert_def dict_get_def split: json.splits option.splits)

lemma format_features_all2:
  "list_all2 (\<lambda>f a. format_weather_alert f = Inr a) fs alerts \<Longrightarrow>
     format_features fs = Inr alerts"
  by (induction rule: list_all2_induct) simp_all

lemma format_features_total:
  "\<forall>f \<in> set fs. \<exists>a. format_weather_alert f = Inr a \<Longrightarrow>
     \<exists>alerts. list_all2 (\<lambda>f a. format_weather_alert f = Inr a) fs alerts"
proof (induction fs)
  case Nil
  show ?case by simp
next
  case (Cons f fs)
  then obtain a alerts where "format_weather_alert f = Inr a"
    and "list_all2 (\<lambda>f a. format_weather_alert f = Inr a) fs alerts"
    by auto
  then have "list_all2 (\<lambda>f a. format_weather_alert f = Inr a) (f # fs) (a # alerts)"
    by simp
  then show ?case by blast
qed

lemma format_features_Inl:
  "format_features fs = Inl e \<longleftrightarrow>
     e = AttributeError \<and> (\<exists>f \<in> set fs. format_weather_alert f = Inl AttributeError)"
proof (induction fs)
  case Nil
  show ?case by simp
next
  case (Cons f fs)
  show ?case
  proof (cases "format_weather_alert f")
    case (Inl e')
    then have "e' = AttributeError" by (simp add: format_weather_alert_Inl)
    with Inl show ?thesis by auto
  next
    case (Inr a)
    with Cons.IH show ?thesis by (auto split: sum.splits)
  qed
qed

lemma fetch_alerts_features:
  assumes "\<not> (400 \<le> status \<and> status < 600)"
      and "map_of body ''features'' = Some (JArr features)"
  shows "fetch_alerts (Response status (Some (JObj body))) = format_features features"
  using assms by (auto simp: fetch_alerts_def json_getitem_def py_iter_def)

text \<open>
  C4. When the upstream answers with a status that \<^verbatim>\<open>raise_for_status\<close> accepts and a
  JSON object whose \<^verbatim>\<open>features\<close> is an array of objects that each carry a
  \<^verbatim>\<open>properties\<close> object, \<^verbatim>\<open>get_weather_alerts\<close> returns one alert per feature, in
  order; each of the five fields is the value of its key in the properties of the
  feature, or the string Unknown when the key is absent. No features, no alerts.
\<close>

theorem get_weather_alerts_projection:
  assumes got: "upstream (WEATHER_API_URL @ ''/alerts/active/area/'' @ state) =
                  Response status (Some (JObj body))"
      and ok: "\<not> (400 \<le> status \<and> status < 600)"
      and feats: "map_of body ''features'' = Some (JArr features)"
      and props: "\<forall>f \<in> set features. \<exists>fo props. f = JObj fo \<and> map_of fo ''properties'' = Some (JObj props)"
  shows "\<exists>alerts. get_weather_alerts upstream state = Inr alerts
          \<and> length alerts = length features
          \<and> (\<forall>i < length features. \<forall>fo props.
                features ! i = JObj fo \<and> map_of fo ''properties'' = Some (JObj props) \<longrightarrow>
                  Event (alerts ! i) =
                    (case map_of props ''event'' of None \<Rightarrow> JStr ''Unknown'' | Some v \<Rightarrow> v)
                \<and> Area (alerts ! i) =
                    (case map_of props ''areaDesc'' of None \<Rightarrow> JStr ''Unknown'' | Some v \<Rightarrow> v)
                \<and> Severity (alerts ! i) =
                    (case map_of props ''severity'' of None \<Rightarrow> JStr ''Unknown'' | Some v \<Rightarrow> v)
                \<and> Description (alerts ! i) =
                    (case map_of props ''description'' of None \<Rightarrow> JStr ''Unknown'' | Some v \<Rightarrow> v)
                \<and> Instruction (alerts ! i) =
                    (case map_of props ''instruction'' of None \<Rightarrow> JStr ''Unknown'' | Some v \<Rightarrow> v))
          \<and> (features = [] \<longrightarrow> alerts = [])"
proof -
  from props have "\<forall>f \<in> set features. \<exists>a. format_weather_alert f = Inr a"
    by (auto simp: format_weather_alert_Inr)
  from format_features_total[OF this]
  obtain alerts where all2: "list_all2 (\<lambda>f a. format_weather_alert f = Inr a) features alerts"
    by blast
  then have "format_features features = Inr alerts"
    by (rule format_features_all2)
  with fetch_alerts_features[OF ok feats] got
  have run: "get_weather_alerts upstream state = Inr alerts"
    by (simp add: get_weather_alerts_def)
  from all2 have len: "length alerts = length features"
    by (simp add: list_all2_lengthD)
  have each: "\<forall>i < length features. \<forall>fo props.
                features ! i = JObj fo \<and> map_of fo ''properties'' = Some (JObj props) \<longrightarrow>
                  Event (alerts ! i) =
                    (case map_of props ''event'' of None \<Rightarrow> JStr ''Unknown'' | Some v \<Rightarrow> v)
                \<and> Area (alerts ! i) =
                    (case map_of props ''areaDesc'' of None \<Rightarrow> JStr ''Unknown'' | Some v \<Rightarrow> v)
                \<and> Severity (alerts ! i) =
                    (case map_of props ''severity'' of None \<Rightarrow> JStr ''Unknown'' | Some v \<Rightarrow> v)
                \<and> Description (alerts ! i) =
                    (case map_of props ''description'' of None \<Rightarrow> JStr ''Unknown'' | Some v \<Rightarrow> v)
                \<and> Instruction (alerts ! i) =
                    (case map_of props ''instruction'' of None \<Rightarrow> JStr ''Unknown'' | Some v \<Rightarrow> v)"
  proof (intro allI impI)
    fix i fo props
    assume i: "i < length features"
      and f: "features ! i = JObj fo \<and> map_of fo ''properties'' = Some (JObj props)"
    from all2 i have "format_weather_alert (features ! i) = Inr (alerts ! i)"
      by (rule list_all2_nthD)
    with f show "Event (alerts ! i) =
                    (case map_of props ''event'' of None \<Rightarrow> JStr ''Unknown'' | Some v \<Rightarrow> v)
                \<and> Area (alerts ! i) =
                    (case map_of props ''areaDesc'' of None \<Rightarrow> JStr ''Unknown'' | Some v \<Rightarrow> v)
                \<and> Severity (alerts ! i) =
                    (case map_of props ''severity'' of None \<Rightarrow> JStr ''Unknown'' | Some v \<Rightarrow> v)
                \<and> Description (alerts ! i) =
                    (case map_of props ''description'' of None \<Rightarrow> JStr ''Unknown'' | Some v \<Rightarrow> v)
                \<and> Instruction (alerts ! i) =
                    (case map_of props ''instruction'' of None \<Rightarrow> JStr ''Unknown'' | Some v \<Rightarrow> v)"
      by (auto simp: format_weather_alert_Inr dict_get_def)
  qed
  from len have "features = [] \<longrightarrow> alerts = []" by auto
  with run len each show ?thesis by blast
qed

theorem get_weather_alerts_projection_witness:
  "get_weather_alerts (demo_upstream [demo_feature]) ''CA'' =
     Inr [\<lparr>Event = JStr ''Flood Warning'', Area = JStr ''Marin'', Severity = JStr ''Unknown'',
           Description = JStr ''River rising'', Instruction = JNull\<rparr>]
   \<and> get_weather_alerts (demo_upstream []) ''CA'' = Inr []"
proof (intro conjI)
  let ?body = "[(''type'', JStr ''FeatureCollection''), (''features'', JArr [demo_feature])]"
  have got: "demo_upstream [demo_feature] (WEATHER_API_URL @ ''/alerts/active/area/'' @ ''CA'') =
      Response 200 (Some (JObj ?body))"
    by (simp add: demo_upstream_def WEATHER_API_URL_def)
  have ok: "\<not> (400 \<le> (200::nat) \<and> (200::nat) < 600)" by simp
  have feats: "map_of ?body ''features'' = Some (JArr [demo_feature])" by simp
  have props: "\<forall>f \<in> set [demo_feature]. \<exists>fo props. f = JObj fo \<and> map_of fo ''properties'' = Some (JObj props)"
    by (simp add: demo_feature_def)
  from get_weather_alerts_projection[where upstream = "demo_upstream [demo_feature]"
      and state = "''CA''", OF got ok feats props]
  obtain alerts where run: "get_weather_alerts (demo_upstream [demo_feature]) ''CA'' = Inr alerts"
    and len: "length alerts = length [demo_feature]"
    and each: "\<forall>i < length [demo_feature]. \<forall>fo props.
                [demo_feature] ! i = JObj fo \<and> map_of fo ''properties'' = Some (JObj props) \<longrightarrow>
                  Event (alerts ! i) =
                    (case map_of props ''event'' of None \<Rightarrow> JStr ''Unknown'' | Some v \<Rightarrow> v)
                \<and> Area (alerts ! i) =
                    (case map_of props ''areaDesc'' of None \<Rightarrow> JStr ''Unknown'' | Some v \<Rightarrow> v)
                \<and> Severity (alerts ! i) =
                    (case map_of props ''severity'' of None \<Rightarrow> JStr ''Unknown'' | Some v \<Rightarrow> v)
                \<and> Description (alerts ! i) =
                    (case map_of props ''description'' of None \<Rightarrow> JStr ''Unknown'' | Some v \<Rightarrow> v)
                \<and> Instruction (alerts ! i) =
                    (case map_of props ''instruction'' of None \<Rightarrow> JStr ''Unknown'' | Some v \<Rightarrow> v)"
    by (elim exE conjE)
  from len obtain a where alerts: "alerts = [a]"
    by (cases alerts) auto
  from each[THEN spec, of 0] have "Event a = JStr ''Flood Warning'' \<and> Area a = JStr ''Marin''
      \<and> Severity a = JStr ''Unknown'' \<and> Description a = JStr ''River rising''
      \<and> Instruction a = JNull"
    by (simp add: demo_feature_def alerts)
  then have "a = \<lparr>Event = JStr ''Flood Warning'', Area = JStr ''Marin'', Severity = JStr ''Unknown'',
           Description = JStr ''River rising'', Instruction = JNull\<rparr>"
    by (cases a) simp
  with run alerts show "get_weather_alerts (demo_upstream [demo_feature]) ''CA'' =
     Inr [\<lparr>Event = JStr ''Flood Warning'', Area = JStr ''Marin'', Severity = JStr ''Unknown'',
           Description = JStr ''River rising'', Instruction = JNull\<rparr>]"
    by simp
next
  let ?body = "[(''type'', JStr ''FeatureCollection''), (''features'', JArr [])]"
  have got: "demo_upstream [] (WEATHER_API_URL @ ''/alerts/active/area/'' @ ''CA'') =
      Response 200 (Some (JObj ?body))"
    by (simp add: demo_upstream_def WEATHER_API_URL_def)
  have ok: "\<not> (400 \<le> (200::nat) \<and> (200::nat) < 600)" by simp
  have feats: "map_of ?body ''features'' = Some (JArr [])" by simp
  have props: "\<forall>f \<in> set []. \<exists>fo props. f = JObj fo \<and> map_of fo ''properties'' = Some (JObj props)"
    by simp
  from get_weather_alerts_projection[where upstream = "demo_upstream []"
      and state = "''CA''", OF got ok feats props]
  show "get_weather_alerts (demo_upstream []) ''CA'' = Inr []"
    by auto
qed

text \<open>
  C10. With the same kind of answer, if some feature of the array has no
  \<^verbatim>\<open>properties\<close> object (the feature is not an object, has no such key, or the value
  is not an object), the whole call fails with the wrapped \<^verbatim>\<open>AttributeError\<close>, the
  alerts of the other features are not returned.
\<close>

theorem get_weather_alerts_missing_properties:
  assumes got: "upstream (WEATHER_API_URL @ ''/alerts/active/area/'' @ state) =
                  Response status (Some (JObj body))"
      and ok: "\<not> (400 \<le> status \<and> status < 600)"
      and feats: "map_of body ''features'' = Some (JArr features)"
      and lacks: "\<exists>f \<in> set features. \<forall>fo props.
                    \<not> (f = JObj fo \<and> map_of fo ''properties'' = Some (JObj props))"
  shows "get_weather_alerts upstream state = Inl (WeatherAlertsError state AttributeError)"
proof -
  from lacks have "\<exists>f \<in> set features. format_weather_alert f = Inl AttributeError"
    by (simp add: format_weather_alert_Inl)
  then have "format_features features = Inl AttributeError"
    by (simp add: format_features_Inl)
  with fetch_alerts_features[OF ok feats] got show ?thesis
    by (simp add: get_weather_alerts_def)
qed

theorem get_weather_alerts_missing_properties_witness:
  "get_weather_alerts (demo_upstream [demo_feature, JObj [(''id'', JStr ''urn:oid:2'')]]) ''CA'' =
     Inl (WeatherAlertsError ''CA'' AttributeError)"
proof -
  let ?fs = "[demo_feature, JObj [(''id'', JStr ''urn:oid:2'')]]"
  let ?body = "[(''type'', JStr ''FeatureCollection''), (''features'', JArr ?fs)]"
  have got: "demo_upstream ?fs (WEATHER_API_URL @ ''/alerts/active/area/'' @ ''CA'') =
      Response 200 (Some (JObj ?body))"
    by (simp add: demo_upstream_def WEATHER_API_URL_def)
  have ok: "\<not> (400 \<le> (200::nat) \<and> (200::nat) < 600)" by simp
  have feats: "map_of ?body ''features'' = Some (JArr ?fs)" by simp
  have lacks: "\<exists>f \<in> set ?fs. \<forall>fo props.
                    \<not> (f = JObj fo \<and> map_of fo ''properties'' = Some (JObj props))"
    by simp
  show ?thesis
    by (rule get_weather_alerts_missing_properties[where upstream = "demo_upstream ?fs"
          and state = "''CA''", OF got ok feats lacks])
qed

end
